theory Spec2Isabelle
  imports Main
begin

section \<open>Data model of \<open>edgedfs.py\<close>\<close>

text \<open>
  \<open>class Direction(enum.Enum)\<close>: how a directed edge was traversed.
\<close>

datatype Direction = Forward | Reverse

text \<open>
  Nodes and multigraph keys are opaque hashable values of the host graph; natural numbers
  stand for them.
\<close>

type_synonym node = nat
type_synonym mkey = nat

text \<open>
  The host graph hands out tuples \<open>(u, v)\<close> or \<open>(u, v, key)\<close>: a pair of nodes and
  an optional key.
\<close>

type_synonym host_edge = "node \<times> node \<times> mkey option"

text \<open>
  The tuples the traversal works on and yields: \<open>(u, v)\<close>, \<open>(u, v, key)\<close>,
  \<open>(u, v, direction)\<close> and \<open>(u, v, key, direction)\<close>. \<open>e0\<close> is \<open>edge[0]\<close>,
  \<open>e1\<close> is \<open>edge[1]\<close>, \<open>etag\<close> is the trailing direction when there is one.
\<close>

datatype edge = Edge (e0: node) (e1: node) (ekey: "mkey option") (etag: "Direction option")

text \<open>The host tuple as it is (\<open>out_edges = G.edges_iter\<close>).\<close>

fun untagged :: "host_edge \<Rightarrow> edge" where
  "untagged (u, v, k) = Edge u v k None"

text \<open>\<open>edge + (d,)\<close>.\<close>

fun add_direction :: "Direction \<Rightarrow> host_edge \<Rightarrow> edge" where
  "add_direction d (u, v, k) = Edge u v k (Some d)"

text \<open>\<open>edge[:-1]\<close> on a tuple whose last element is the direction.\<close>

fun drop_direction :: "edge \<Rightarrow> edge" where
  "drop_direction (Edge u v k d) = Edge u v k None"

text \<open>
  What \<open>key(edge)\<close> returns: a tuple of the shape of an edge, or
  \<open>(frozenset(edge[:2]),) + edge[2:]\<close>.
\<close>

datatype edge_key =
    KEdge edge
  | KFrozen "node set" "mkey option" "Direction option"

text \<open>The \<open>source\<close> argument: \<open>None\<close>, one node, or a list of nodes.\<close>

datatype source = SourceNone | OneNode node | NodeList "node list"

text \<open>
  Exceptions: \<open>StopIteration\<close> is raised by \<open>edge_dfs\<close> itself; \<open>NetworkXError\<close> is
  what the host graph's node resolution raises.
\<close>

datatype exn = StopIteration | NetworkXError

text \<open>
  \<open>kwds = {'data': False}\<close>, with \<open>kwds['keys'] = True\<close> added for a multigraph
  (\<open>kw_keys = None\<close>: no such entry).
\<close>

record kwds =
  kw_data :: bool
  kw_keys :: "bool option"

text \<open>
  The host graph \<open>G\<close>. Its class is not part of this module; the traversal uses these
  methods of it and nothing else. Each enumeration is a list: the order in which the host
  hands out the edges.
\<close>

record graph =
  is_directed :: bool
  is_multigraph :: bool
  nbunch_iter :: "source \<Rightarrow> exn + node list"
  G_out_edges :: "node \<Rightarrow> kwds \<Rightarrow> host_edge list"
  G_in_edges :: "node \<Rightarrow> kwds \<Rightarrow> host_edge list"
  G_edges_iter :: "node \<Rightarrow> kwds \<Rightarrow> host_edge list"

section \<open>\<open>helper_funcs\<close>\<close>

definition ignore_orientation :: "graph \<Rightarrow> string \<Rightarrow> bool" where
  "ignore_orientation G orientation \<longleftrightarrow> is_directed G \<and> orientation = ''ignore''"

definition reverse_orientation :: "graph \<Rightarrow> string \<Rightarrow> bool" where
  "reverse_orientation G orientation \<longleftrightarrow> is_directed G \<and> orientation = ''reverse''"

definition out_edges :: "graph \<Rightarrow> string \<Rightarrow> node \<Rightarrow> kwds \<Rightarrow> edge list" where
  "out_edges G orientation u kw =
     (if ignore_orientation G orientation then
        map (add_direction Forward) (G_out_edges G u kw) @
        map (add_direction Reverse) (G_in_edges G u kw)
      else if reverse_orientation G orientation then
        map (add_direction Reverse) (G_in_edges G u kw)
      else map untagged (G_edges_iter G u kw))"

definition key :: "graph \<Rightarrow> string \<Rightarrow> edge \<Rightarrow> edge_key" where
  "key G orientation edge =
     (if ignore_orientation G orientation \<or> reverse_orientation G orientation then
        KEdge (drop_direction edge)
      else if is_directed G then KEdge edge
      else KFrozen {e0 edge, e1 edge} (ekey edge) (etag edge))"

definition traversed_tailhead :: "graph \<Rightarrow> string \<Rightarrow> edge \<Rightarrow> node \<times> node" where
  "traversed_tailhead G orientation edge =
     (if (ignore_orientation G orientation \<or> reverse_orientation G orientation)
         \<and> etag edge = Some Reverse
      then (e1 edge, e0 edge)
      else (e0 edge, e1 edge))"

definition helper_funcs ::
  "graph \<Rightarrow> string \<Rightarrow>
   (node \<Rightarrow> kwds \<Rightarrow> edge list) \<times> (edge \<Rightarrow> edge_key) \<times> (edge \<Rightarrow> node \<times> node)" where
  "helper_funcs G orientation =
     (out_edges G orientation, key G orientation, traversed_tailhead G orientation)"

section \<open>\<open>edge_dfs\<close>\<close>

text \<open>
  The local variables of one call. \<open>stack\<close> and the lists in \<open>edges\<close> are Python lists:
  the top of the stack and the next pending edge are the last elements. \<open>edges\<close> is a
  \<open>defaultdict(list)\<close>: every node has a list, empty until filled. \<open>yielded\<close> collects
  what the generator has yielded so far, in order.
\<close>

record state =
  stack :: "node list"
  visited_edges :: "edge_key set"
  visited_nodes :: "node set"
  edges :: "node \<Rightarrow> edge list"
  yielded :: "edge list"

definition init_state :: state where
  "init_state =
     \<lparr>stack = [], visited_edges = {}, visited_nodes = {}, edges = (\<lambda>_. []), yielded = []\<rparr>"

text \<open>The \<open>if current_node not in visited_nodes\<close> block.\<close>

definition fetch_edges :: "(node \<Rightarrow> kwds \<Rightarrow> edge list) \<Rightarrow> kwds \<Rightarrow> node \<Rightarrow> state \<Rightarrow> state" where
  "fetch_edges out_edges_f kw current_node s =
     (if current_node \<notin> visited_nodes s then
        s\<lparr>edges := (edges s)(current_node := rev (edges s current_node @ out_edges_f current_node kw)),
          visited_nodes := insert current_node (visited_nodes s)\<rparr>
      else s)"

text \<open>
  The \<open>try ... except IndexError ... else\<close> block: \<open>edges[current_node][-1]\<close> raises
  exactly when the list is empty.
\<close>

definition take_edge :: "(edge \<Rightarrow> edge_key) \<Rightarrow> node \<Rightarrow> state \<Rightarrow> state" where
  "take_edge key_f current_node s =
     (if edges s current_node = [] then s\<lparr>stack := butlast (stack s)\<rparr>
      else
        let edge = last (edges s current_node);
            edge_key = key_f edge;
            s' = (if edge_key \<notin> visited_edges s then
                    s\<lparr>visited_edges := insert edge_key (visited_edges s),
                      stack := stack s @ [e1 edge],
                      yielded := yielded s @ [edge]\<rparr>
                  else s)
        in s'\<lparr>edges := (edges s')(current_node := butlast (edges s' current_node))\<rparr>)"

text \<open>One pass through the body of \<open>while stack\<close> (the stack is not empty).\<close>

definition loop_body ::
  "(node \<Rightarrow> kwds \<Rightarrow> edge list) \<Rightarrow> (edge \<Rightarrow> edge_key) \<Rightarrow> kwds \<Rightarrow> state \<Rightarrow> state" where
  "loop_body out_edges_f key_f kw s =
     (let current_node = last (stack s)
      in take_edge key_f current_node (fetch_edges out_edges_f kw current_node s))"

text \<open>\<open>while stack: ...\<close>; \<open>None\<close> when the loop never ends.\<close>

partial_function (option) while_stack ::
  "(node \<Rightarrow> kwds \<Rightarrow> edge list) \<Rightarrow> (edge \<Rightarrow> edge_key) \<Rightarrow> kwds \<Rightarrow> state \<Rightarrow> state option" where
  "while_stack out_edges_f key_f kw s =
     (if stack s = [] then Some s
      else while_stack out_edges_f key_f kw (loop_body out_edges_f key_f kw s))"

declare while_stack.simps [code]

text \<open>\<open>for start_node in nodes: stack = [start_node]; while stack: ...\<close>\<close>

fun for_nodes ::
  "(node \<Rightarrow> kwds \<Rightarrow> edge list) \<Rightarrow> (edge \<Rightarrow> edge_key) \<Rightarrow> kwds \<Rightarrow> node list \<Rightarrow> state \<Rightarrow> state option" where
  "for_nodes out_edges_f key_f kw [] s = Some s"
| "for_nodes out_edges_f key_f kw (start_node # nodes) s =
     (case while_stack out_edges_f key_f kw (s\<lparr>stack := [start_node]\<rparr>) of
        None \<Rightarrow> None
      | Some s' \<Rightarrow> for_nodes out_edges_f key_f kw nodes s')"

definition edge_kwds :: "graph \<Rightarrow> kwds" where
  "edge_kwds G =
     (if is_multigraph G then \<lparr>kw_data = False, kw_keys = Some True\<rparr>
      else \<lparr>kw_data = False, kw_keys = None\<rparr>)"

text \<open>
  The body of the generator \<open>edge_dfs\<close>, run until it ends. \<open>None\<close>: it never ends.
  \<open>Some (Inl e)\<close>: exception \<open>e\<close> left the body (each one does so before anything is
  yielded). \<open>Some (Inr es)\<close>: the body ran to its end, having yielded \<open>es\<close>.
\<close>

definition edge_dfs :: "graph \<Rightarrow> source \<Rightarrow> string \<Rightarrow> (exn + edge list) option" where
  "edge_dfs G source orientation =
     (case nbunch_iter G source of
        Inl e \<Rightarrow> Some (Inl e)
      | Inr nodes \<Rightarrow>
          if nodes = [] then Some (Inl StopIteration)
          else
            let kw = edge_kwds G;
                (out_edges_f, key_f, tailhead) = helper_funcs G orientation
            in map_option (\<lambda>s. Inr (yielded s)) (for_nodes out_edges_f key_f kw nodes init_state))"

section \<open>Host graphs for the concrete scenarios\<close>

text \<open>
  Modelled from the spec: the host graph classes (the graph data structure is an external
  collaborator of this module). A simple graph built from an edge list stores each pair
  once and enumerates nodes and neighbours in the order of first insertion; node
  resolution returns every node when no source is given, keeps the nodes of a list that
  are in the graph, and raises for a single node that is not in the graph.
\<close>

definition add_once :: "'a list \<Rightarrow> 'a \<Rightarrow> 'a list" where
  "add_once xs x = (if x \<in> set xs then xs else xs @ [x])"

definition nodes_of :: "(node \<times> node) list \<Rightarrow> node list" where
  "nodes_of es = foldl add_once [] (concat (map (\<lambda>(u, v). [u, v]) es))"

definition resolve :: "node list \<Rightarrow> source \<Rightarrow> exn + node list" where
  "resolve ns src =
     (case src of
        SourceNone \<Rightarrow> Inr ns
      | OneNode n \<Rightarrow> if n \<in> set ns then Inr [n] else Inl NetworkXError
      | NodeList xs \<Rightarrow> Inr (filter (\<lambda>n. n \<in> set ns) xs))"

definition successors :: "(node \<times> node) list \<Rightarrow> node \<Rightarrow> node list" where
  "successors es u = foldl add_once [] (map snd (filter (\<lambda>(a, b). a = u) es))"

definition predecessors :: "(node \<times> node) list \<Rightarrow> node \<Rightarrow> node list" where
  "predecessors es u = foldl add_once [] (map fst (filter (\<lambda>(a, b). b = u) es))"

definition neighbors :: "(node \<times> node) list \<Rightarrow> node \<Rightarrow> node list" where
  "neighbors es u =
     foldl add_once []
       (concat (map (\<lambda>(a, b). (if a = u then [b] else []) @ (if b = u then [a] else [])) es))"

definition DiGraph :: "(node \<times> node) list \<Rightarrow> graph" where
  "DiGraph es =
     \<lparr>is_directed = True, is_multigraph = False,
      nbunch_iter = resolve (nodes_of es),
      G_out_edges = (\<lambda>u kw. map (\<lambda>v. (u, v, None)) (successors es u)),
      G_in_edges = (\<lambda>u kw. map (\<lambda>p. (p, u, None)) (predecessors es u)),
      G_edges_iter = (\<lambda>u kw. map (\<lambda>v. (u, v, None)) (successors es u))\<rparr>"

definition Graph :: "(node \<times> node) list \<Rightarrow> graph" where
  "Graph es =
     \<lparr>is_directed = False, is_multigraph = False,
      nbunch_iter = resolve (nodes_of es),
      G_out_edges = (\<lambda>u kw. []),
      G_in_edges = (\<lambda>u kw. []),
      G_edges_iter = (\<lambda>u kw. map (\<lambda>v. (u, v, None)) (neighbors es u))\<rparr>"

section \<open>Invariants and the termination measure\<close>

text \<open>The identities of the edges yielded so far are pairwise different and all recorded.\<close>

definition no_repeat :: "(edge \<Rightarrow> edge_key) \<Rightarrow> state \<Rightarrow> bool" where
  "no_repeat kf s \<longleftrightarrow>
     distinct (map kf (yielded s)) \<and> kf ` set (yielded s) \<subseteq> visited_edges s"

text \<open>
  The edges still to be looked at from node \<open>n\<close>: those in its pending list, and those
  the host will hand out if \<open>n\<close> has not been fetched yet.
\<close>

definition pending :: "(node \<Rightarrow> kwds \<Rightarrow> edge list) \<Rightarrow> kwds \<Rightarrow> state \<Rightarrow> node \<Rightarrow> nat" where
  "pending oe kw s n =
     length (edges s n) + (if n \<in> visited_nodes s then 0 else length (oe n kw))"

definition work :: "(node \<Rightarrow> kwds \<Rightarrow> edge list) \<Rightarrow> kwds \<Rightarrow> node set \<Rightarrow> state \<Rightarrow> nat" where
  "work oe kw V s = 2 * (\<Sum>n\<in>V. pending oe kw s n) + length (stack s)"

text \<open>The stack and the pending edges stay inside the node set \<open>V\<close>.\<close>

definition closed_in :: "node set \<Rightarrow> state \<Rightarrow> bool" where
  "closed_in V s \<longleftrightarrow>
     set (stack s) \<subseteq> V \<and> (\<forall>n\<in>V. \<forall>e\<in>set (edges s n). e1 e \<in> V)"

text \<open>Every yielded and every pending edge is one that \<open>out_edges\<close> produced.\<close>

definition from_out_edges :: "(node \<Rightarrow> kwds \<Rightarrow> edge list) \<Rightarrow> kwds \<Rightarrow> state \<Rightarrow> bool" where
  "from_out_edges oe kw s \<longleftrightarrow>
     (\<forall>e\<in>set (yielded s). \<exists>u. e \<in> set (oe u kw)) \<and>
     (\<forall>n. \<forall>e\<in>set (edges s n). \<exists>u. e \<in> set (oe u kw))"

text \<open>
  The yielded tuple \<open>e\<close> has the endpoints of the host's tuple \<open>h\<close> in exchanged
  positions.
\<close>

definition endpoints_swapped :: "host_edge \<Rightarrow> edge \<Rightarrow> bool" where
  "endpoints_swapped h e \<longleftrightarrow> e0 e = fst (snd h) \<and> e1 e = fst h"

section \<open>The helper functions only look at the mode on directed graphs\<close>

lemma helper_funcs_undirected:
  "\<not> is_directed G \<Longrightarrow> helper_funcs G orientation = helper_funcs G orientation'"
  by (simp add: helper_funcs_def out_edges_def key_def traversed_tailhead_def
      ignore_orientation_def reverse_orientation_def fun_eq_iff)

lemma helper_funcs_other_mode:
  "orientation \<noteq> ''ignore'' \<Longrightarrow> orientation \<noteq> ''reverse'' \<Longrightarrow>
   helper_funcs G orientation = helper_funcs G ''original''"
  by (simp add: helper_funcs_def out_edges_def key_def traversed_tailhead_def
      ignore_orientation_def reverse_orientation_def fun_eq_iff)

text \<open>
  The shapes of the tuples: with \<open>ignore\<close> or \<open>reverse\<close> on a directed graph every
  edge of \<open>out_edges\<close> ends with a direction, which is what \<open>edge[:-1]\<close> in \<open>key\<close>
  strips; in every other case no edge has one.
\<close>

lemma out_edges_tagged:
  assumes "ignore_orientation G orientation \<or> reverse_orientation G orientation"
    and "e \<in> set (out_edges G orientation u kw)"
  shows "etag e \<noteq> None"
proof -
  have "etag (add_direction d h) \<noteq> None" for d h
    by (cases h) simp
  with assms show ?thesis
    by (auto simp: out_edges_def split: if_splits)
qed

lemma out_edges_untagged:
  assumes "\<not> ignore_orientation G orientation" and "\<not> reverse_orientation G orientation"
    and "e \<in> set (out_edges G orientation u kw)"
  shows "etag e = None"
proof -
  have "etag (untagged h) = None" for h
    by (cases h) simp
  with assms show ?thesis
    by (auto simp: out_edges_def split: if_splits)
qed

section \<open>What the loop body pushes\<close>

text \<open>Whenever a pass of the loop yields an edge, it pushes \<open>edge[1]\<close>.\<close>

lemma loop_body_pushes_second_element:
  assumes "yielded (loop_body oe kf kw s) = yielded s @ [e]"
  shows "stack (loop_body oe kf kw s) = stack s @ [e1 e]"
  using assms
  by (auto simp: loop_body_def take_edge_def fetch_edges_def Let_def split: if_splits)

section \<open>Rules for the two loops\<close>

lemma while_stack_rule:
  assumes run: "while_stack oe kf kw s = Some s'"
    and init: "P s"
    and step: "\<And>t. P t \<Longrightarrow> stack t \<noteq> [] \<Longrightarrow> P (loop_body oe kf kw t)"
  shows "P s' \<and> stack s' = []"
proof -
  have "oe = oe \<longrightarrow> kf = kf \<longrightarrow> kw = kw \<longrightarrow> P s \<longrightarrow> P s' \<and> stack s' = []"
  proof (rule while_stack.raw_induct
      [where P = "\<lambda>a b c t y. a = oe \<longrightarrow> b = kf \<longrightarrow> c = kw \<longrightarrow> P t \<longrightarrow> P y \<and> stack y = []", OF _ run])
    fix w a b c t y
    assume IH: "\<And>a b c t y. w a b c t = Some y \<Longrightarrow>
        a = oe \<longrightarrow> b = kf \<longrightarrow> c = kw \<longrightarrow> P t \<longrightarrow> P y \<and> stack y = []"
      and eq: "(if stack t = [] then Some t else w a b c (loop_body a b c t)) = Some y"
    show "a = oe \<longrightarrow> b = kf \<longrightarrow> c = kw \<longrightarrow> P t \<longrightarrow> P y \<and> stack y = []"
    proof (intro impI)
      assume p: "a = oe" "b = kf" "c = kw" "P t"
      show "P y \<and> stack y = []"
      proof (cases "stack t = []")
        case True
        with eq p show ?thesis by simp
      next
        case False
        with eq have "w a b c (loop_body a b c t) = Some y"
          by simp
        moreover have "P (loop_body a b c t)"
          using p False step by simp
        ultimately show ?thesis
          using IH p by blast
      qed
    qed
  qed
  with init show ?thesis by simp
qed

lemma for_nodes_rule:
  assumes run: "for_nodes oe kf kw nodes s = Some s'"
    and init: "P s"
    and step: "\<And>t. P t \<Longrightarrow> stack t \<noteq> [] \<Longrightarrow> P (loop_body oe kf kw t)"
    and root: "\<And>t n. P t \<Longrightarrow> n \<in> set nodes \<Longrightarrow> P (t\<lparr>stack := [n]\<rparr>)"
  shows "P s'"
  using run init root
proof (induction nodes arbitrary: s)
  case Nil
  then show ?case by simp
next
  case (Cons n nodes)
  from Cons.prems(1) obtain t where
    w: "while_stack oe kf kw (s\<lparr>stack := [n]\<rparr>) = Some t" and r: "for_nodes oe kf kw nodes t = Some s'"
    by (auto split: option.splits)
  have "P (s\<lparr>stack := [n]\<rparr>)"
    using Cons.prems by simp
  with w step have "P t"
    using while_stack_rule [of oe kf kw _ t P] by blast
  with r Cons show ?case by simp
qed

section \<open>No identity is yielded twice\<close>

lemma no_repeat_loop_body: "no_repeat kf s \<Longrightarrow> no_repeat kf (loop_body oe kf kw s)"
  by (auto simp: no_repeat_def loop_body_def take_edge_def fetch_edges_def Let_def)

lemma no_repeat_init: "no_repeat kf init_state"
  by (simp add: no_repeat_def init_state_def)

lemma for_nodes_no_repeat:
  "for_nodes oe kf kw nodes init_state = Some s' \<Longrightarrow> distinct (map kf (yielded s'))"
  using for_nodes_rule [of oe kf kw nodes init_state s' "no_repeat kf"]
  by (simp add: no_repeat_init no_repeat_loop_body) (simp add: no_repeat_def)

lemma edge_dfs_cases:
  assumes "edge_dfs G source orientation = Some (Inr es)"
  shows "\<exists>nodes s'. nbunch_iter G source = Inr nodes \<and>
            for_nodes (out_edges G orientation) (key G orientation) (edge_kwds G) nodes init_state = Some s' \<and>
            es = yielded s'"
proof (cases "nbunch_iter G source")
  case (Inl e)
  with assms show ?thesis
    by (simp add: edge_dfs_def)
next
  case (Inr nodes)
  show ?thesis
  proof (cases "nodes = []")
    case True
    with Inr assms show ?thesis by (simp add: edge_dfs_def)
  next
    case False
    with Inr assms show ?thesis
      by (cases "for_nodes (out_edges G orientation) (key G orientation) (edge_kwds G) nodes init_state")
        (simp_all add: edge_dfs_def helper_funcs_def)
  qed
qed

section \<open>Termination on a finite closed node set\<close>

lemma pending_fetch_edges: "pending oe kw (fetch_edges oe kw c s) n = pending oe kw s n"
  by (simp add: pending_def fetch_edges_def)

lemma stack_fetch_edges: "stack (fetch_edges oe kw c s) = stack s"
  by (simp add: fetch_edges_def)

lemma work_fetch_edges: "work oe kw V (fetch_edges oe kw c s) = work oe kw V s"
  by (simp add: work_def pending_fetch_edges stack_fetch_edges)

lemma pending_take_edge_other:
  "n \<noteq> c \<Longrightarrow> pending oe kw (take_edge kf c s) n = pending oe kw s n"
  by (simp add: pending_def take_edge_def Let_def)

lemma pending_take_edge_empty:
  "edges s c = [] \<Longrightarrow> pending oe kw (take_edge kf c s) n = pending oe kw s n"
  by (simp add: pending_def take_edge_def)

lemma pending_take_edge_current:
  "edges s c \<noteq> [] \<Longrightarrow> Suc (pending oe kw (take_edge kf c s) c) = pending oe kw s c"
  by (simp add: pending_def take_edge_def Let_def)

lemma sum_pending_take_edge:
  assumes "finite V" and "c \<in> V" and "edges s c \<noteq> []"
  shows "Suc (\<Sum>n\<in>V. pending oe kw (take_edge kf c s) n) = (\<Sum>n\<in>V. pending oe kw s n)"
proof -
  have "(\<Sum>n\<in>V - {c}. pending oe kw (take_edge kf c s) n) = (\<Sum>n\<in>V - {c}. pending oe kw s n)"
    by (rule sum.cong) (simp_all add: pending_take_edge_other)
  then show ?thesis
    using assms pending_take_edge_current [of s c oe kw kf]
    by (simp add: sum.remove [of V c])
qed

lemma length_stack_take_edge:
  "edges s c \<noteq> [] \<Longrightarrow> length (stack (take_edge kf c s)) \<le> Suc (length (stack s))"
  by (simp add: take_edge_def Let_def)

lemma work_take_edge:
  assumes "finite V" and "c \<in> V" and "stack s \<noteq> []"
  shows "work oe kw V (take_edge kf c s) < work oe kw V s"
proof (cases "edges s c = []")
  case True
  then have "(\<Sum>n\<in>V. pending oe kw (take_edge kf c s) n) = (\<Sum>n\<in>V. pending oe kw s n)"
    by (simp add: pending_take_edge_empty)
  moreover from True assms(3) have "length (stack (take_edge kf c s)) < length (stack s)"
    by (simp add: take_edge_def)
  ultimately show ?thesis
    by (simp add: work_def)
next
  case False
  from sum_pending_take_edge [OF assms(1,2) False, of oe kw kf]
    length_stack_take_edge [OF False, of kf]
  show ?thesis
    by (simp add: work_def)
qed

lemma work_loop_body:
  assumes "finite V" and "closed_in V s" and "stack s \<noteq> []"
  shows "work oe kw V (loop_body oe kf kw s) < work oe kw V s"
proof -
  from assms have c: "last (stack s) \<in> V"
    by (auto simp: closed_in_def)
  have "stack (fetch_edges oe kw (last (stack s)) s) \<noteq> []"
    using assms(3) by (simp add: stack_fetch_edges)
  from work_take_edge [OF assms(1) c this, of oe kw kf]
  show ?thesis
    by (simp add: loop_body_def Let_def work_fetch_edges)
qed

lemma closed_in_fetch_edges:
  assumes "closed_in V s" and "c \<in> V" and "\<forall>e\<in>set (oe c kw). e1 e \<in> V"
  shows "closed_in V (fetch_edges oe kw c s)"
  using assms by (auto simp: closed_in_def fetch_edges_def)

lemma closed_in_take_edge:
  assumes "closed_in V s" and "c \<in> V"
  shows "closed_in V (take_edge kf c s)"
proof (cases "edges s c = []")
  case True
  with assms show ?thesis
    by (auto simp: closed_in_def take_edge_def dest: in_set_butlastD)
next
  case False
  then have "last (edges s c) \<in> set (edges s c)"
    by simp
  with assms have "e1 (last (edges s c)) \<in> V"
    by (simp add: closed_in_def)
  with False assms show ?thesis
    by (auto simp: closed_in_def take_edge_def Let_def dest: in_set_butlastD)
qed

lemma closed_in_loop_body:
  assumes "closed_in V s" and "stack s \<noteq> []" and "\<forall>u\<in>V. \<forall>e\<in>set (oe u kw). e1 e \<in> V"
  shows "closed_in V (loop_body oe kf kw s)"
proof -
  from assms have c: "last (stack s) \<in> V"
    by (auto simp: closed_in_def)
  with assms show ?thesis
    by (simp add: loop_body_def Let_def closed_in_take_edge closed_in_fetch_edges)
qed

lemma while_stack_terminates:
  assumes fin: "finite V" and cl: "\<forall>u\<in>V. \<forall>e\<in>set (oe u kw). e1 e \<in> V"
  shows "closed_in V s \<Longrightarrow> \<exists>s'. while_stack oe kf kw s = Some s'"
proof (induction "work oe kw V s" arbitrary: s rule: less_induct)
  case less
  show ?case
  proof (cases "stack s = []")
    case True
    then show ?thesis
      by (subst while_stack.simps) simp
  next
    case False
    have "work oe kw V (loop_body oe kf kw s) < work oe kw V s"
      using fin less.prems False by (rule work_loop_body)
    moreover have "closed_in V (loop_body oe kf kw s)"
      using less.prems False cl by (rule closed_in_loop_body)
    ultimately obtain s' where "while_stack oe kf kw (loop_body oe kf kw s) = Some s'"
      using less.hyps by blast
    with False show ?thesis
      by (subst while_stack.simps) simp
  qed
qed

lemma closed_in_root: "closed_in V s \<Longrightarrow> n \<in> V \<Longrightarrow> closed_in V (s\<lparr>stack := [n]\<rparr>)"
  by (simp add: closed_in_def)

lemma for_nodes_terminates:
  assumes fin: "finite V" and cl: "\<forall>u\<in>V. \<forall>e\<in>set (oe u kw). e1 e \<in> V"
  shows "closed_in V s \<Longrightarrow> set nodes \<subseteq> V \<Longrightarrow> \<exists>s'. for_nodes oe kf kw nodes s = Some s'"
proof (induction nodes arbitrary: s)
  case Nil
  show ?case by simp
next
  case (Cons n nodes)
  from Cons.prems have start: "closed_in V (s\<lparr>stack := [n]\<rparr>)"
    by (simp add: closed_in_root)
  with fin cl obtain t where t: "while_stack oe kf kw (s\<lparr>stack := [n]\<rparr>) = Some t"
    using while_stack_terminates by blast
  have "closed_in V t"
    using while_stack_rule [OF t, of "closed_in V"] start cl closed_in_loop_body by blast
  with Cons t show ?case by simp
qed

lemma closed_in_init: "closed_in V init_state"
  by (simp add: closed_in_def init_state_def)

section \<open>Every yielded edge comes from \<open>out_edges\<close>\<close>

lemma from_out_edges_loop_body:
  assumes "from_out_edges oe kw s"
  shows "from_out_edges oe kw (loop_body oe kf kw s)"
proof -
  let ?c = "last (stack s)"
  have f: "from_out_edges oe kw (fetch_edges oe kw ?c s)"
    using assms by (auto simp: from_out_edges_def fetch_edges_def)
  have "from_out_edges oe kw (take_edge kf ?c t)" if t: "from_out_edges oe kw t" for t
  proof (cases "edges t ?c = []")
    case True
    with t show ?thesis
      by (simp add: from_out_edges_def take_edge_def)
  next
    case False
    then have "last (edges t ?c) \<in> set (edges t ?c)"
      by simp
    with t have "\<exists>u. last (edges t ?c) \<in> set (oe u kw)"
      by (simp add: from_out_edges_def)
    with False t show ?thesis
      by (auto simp: from_out_edges_def take_edge_def Let_def dest: in_set_butlastD)
  qed
  from this [OF f] show ?thesis
    by (simp add: loop_body_def Let_def)
qed

lemma from_out_edges_init: "from_out_edges oe kw init_state"
  by (simp add: from_out_edges_def init_state_def)

lemma for_nodes_from_out_edges:
  assumes "for_nodes oe kf kw nodes init_state = Some s'" and "e \<in> set (yielded s')"
  shows "\<exists>u. e \<in> set (oe u kw)"
proof -
  have "from_out_edges oe kw s'"
    using assms(1)
  proof (rule for_nodes_rule)
    show "from_out_edges oe kw init_state"
      by (rule from_out_edges_init)
  next
    fix t show "from_out_edges oe kw t \<Longrightarrow> from_out_edges oe kw (loop_body oe kf kw t)"
      by (rule from_out_edges_loop_body)
  next
    fix t n show "from_out_edges oe kw t \<Longrightarrow> from_out_edges oe kw (t\<lparr>stack := [n]\<rparr>)"
      by (simp add: from_out_edges_def)
  qed
  with assms(2) show ?thesis
    by (simp add: from_out_edges_def)
qed

lemma edge_dfs_yields_out_edges:
  assumes "edge_dfs G source orientation = Some (Inr es)" and "e \<in> set es"
  shows "\<exists>u. e \<in> set (out_edges G orientation u (edge_kwds G))"
  using edge_dfs_cases [OF assms(1)] assms(2) for_nodes_from_out_edges
  by fastforce

section \<open>An empty list of sources\<close>

lemma edge_dfs_no_sources:
  "nbunch_iter G source = Inr [] \<Longrightarrow> edge_dfs G source orientation = Some (Inl StopIteration)"
  by (simp add: edge_dfs_def)

section \<open>Claims\<close>

text \<open>
  C1. When the host resolves the source argument to no node at all, the generator body
  does not end with an empty sequence: it leaves through \<open>raise StopIteration\<close>, an
  exception, before anything is yielded. So it does on the empty directed graph with no
  source given.
\<close>

theorem edge_dfs_empty_sources_raises:
  "edge_dfs (DiGraph []) SourceNone ''original'' = Some (Inl StopIteration)"
  by (simp add: edge_dfs_def DiGraph_def resolve_def nodes_of_def)

text \<open>
  C2. What the engine pushes after yielding an edge is \<open>edge[1]\<close>, the second element
  of the tuple; \<open>traversed_tailhead\<close> is returned by \<open>helper_funcs\<close> and never
  called. On the directed graph with the edges (1,0) and (2,1), source 0, orientation
  \<open>reverse\<close>: the first pass yields (1,0,Reverse) and pushes node 0 again, while the
  traversed head of that edge is node 1; the edge (2,1) is never reached.
\<close>

theorem edge_dfs_pushes_second_element:
  "yielded (loop_body (out_edges (DiGraph [(1, 0), (2, 1)]) ''reverse'') (key (DiGraph [(1, 0), (2, 1)]) ''reverse'')
      (edge_kwds (DiGraph [(1, 0), (2, 1)])) (init_state\<lparr>stack := [0]\<rparr>)) = [Edge 1 0 None (Some Reverse)] \<and>
   stack (loop_body (out_edges (DiGraph [(1, 0), (2, 1)]) ''reverse'') (key (DiGraph [(1, 0), (2, 1)]) ''reverse'')
      (edge_kwds (DiGraph [(1, 0), (2, 1)])) (init_state\<lparr>stack := [0]\<rparr>)) = [0, 0] \<and>
   traversed_tailhead (DiGraph [(1, 0), (2, 1)]) ''reverse'' (Edge 1 0 None (Some Reverse)) = (0, 1) \<and>
   edge_dfs (DiGraph [(1, 0), (2, 1)]) (NodeList [0]) ''reverse'' = Some (Inr [Edge 1 0 None (Some Reverse)])"
  by code_simp

text \<open>
  C3. On a directed graph with orientation \<open>reverse\<close>, every yielded tuple ends with
  \<open>Direction.Reverse\<close>, and its first two elements (and its key) are those of a tuple
  of the host's incoming-edge enumeration, in the host's order: the stored tail first, the
  stored head second.
\<close>

theorem edge_dfs_reverse_stored_order:
  assumes "is_directed G"
    and "edge_dfs G source ''reverse'' = Some (Inr es)"
    and "e \<in> set es"
  shows "etag e = Some Reverse \<and>
         (\<exists>u. (e0 e, e1 e, ekey e) \<in> set (G_in_edges G u (edge_kwds G)))"
proof -
  from edge_dfs_yields_out_edges [OF assms(2,3)]
  obtain u where "e \<in> set (out_edges G ''reverse'' u (edge_kwds G))"
    by blast
  with assms(1) obtain h where h: "h \<in> set (G_in_edges G u (edge_kwds G))" and e: "e = add_direction Reverse h"
    by (auto simp: out_edges_def ignore_orientation_def reverse_orientation_def)
  obtain a b k where "h = (a, b, k)"
    by (cases h)
  with h e show ?thesis
    by auto
qed

theorem edge_dfs_reverse_stored_order_witness:
  "is_directed (DiGraph [(1, 0)]) \<and>
   edge_dfs (DiGraph [(1, 0)]) (NodeList [0]) ''reverse'' = Some (Inr [Edge 1 0 None (Some Reverse)]) \<and>
   Edge 1 0 None (Some Reverse) \<in> set [Edge 1 0 None (Some Reverse)] \<and>
   etag (Edge 1 0 None (Some Reverse)) = Some Reverse \<and>
   (\<exists>u. (e0 (Edge 1 0 None (Some Reverse)), e1 (Edge 1 0 None (Some Reverse)), ekey (Edge 1 0 None (Some Reverse)))
        \<in> set (G_in_edges (DiGraph [(1, 0)]) u (edge_kwds (DiGraph [(1, 0)]))))"
proof -
  have d: "is_directed (DiGraph [(1, 0)])"
    by (simp add: DiGraph_def)
  have r: "edge_dfs (DiGraph [(1, 0)]) (NodeList [0]) ''reverse'' = Some (Inr [Edge 1 0 None (Some Reverse)])"
    by code_simp
  have m: "Edge 1 0 None (Some Reverse) \<in> set [Edge 1 0 None (Some Reverse)]"
    by simp
  from edge_dfs_reverse_stored_order [OF d r m] d r m show ?thesis
    by blast
qed

text \<open>
  The endpoints are not exchanged: on the directed graph with the single edge (1,0),
  source 0, orientation \<open>reverse\<close>, the only yielded tuple is (1,0,Reverse), the host's
  tuple (1,0) with the tag added.
\<close>

theorem edge_dfs_reverse_swapped_counterexample:
  "edge_dfs (DiGraph [(1, 0)]) (NodeList [0]) ''reverse'' = Some (Inr [Edge 1 0 None (Some Reverse)]) \<and>
   G_in_edges (DiGraph [(1, 0)]) 0 (edge_kwds (DiGraph [(1, 0)])) = [(1, 0, None)] \<and>
   \<not> endpoints_swapped (1, 0, None) (Edge 1 0 None (Some Reverse))"
  by code_simp

text \<open>
  C4. The identities (\<open>key\<close>) of the edges that one call of \<open>edge_dfs\<close> yields are
  pairwise different: no identity occurs twice in the output sequence.
\<close>

theorem edge_dfs_no_identity_twice:
  "edge_dfs G source orientation = Some (Inr es) \<Longrightarrow> distinct (map (key G orientation) es)"
  using edge_dfs_cases [of G source orientation es] for_nodes_no_repeat
  by fastforce

theorem edge_dfs_no_identity_twice_witness:
  "edge_dfs (DiGraph [(0, 1), (1, 0), (1, 0), (2, 1), (3, 1)]) (NodeList [0, 1, 2, 3]) ''ignore'' =
     Some (Inr [Edge 0 1 None (Some Forward), Edge 1 0 None (Some Forward),
                Edge 2 1 None (Some Reverse), Edge 3 1 None (Some Reverse)]) \<and>
   distinct (map (key (DiGraph [(0, 1), (1, 0), (1, 0), (2, 1), (3, 1)]) ''ignore'')
     [Edge 0 1 None (Some Forward), Edge 1 0 None (Some Forward),
      Edge 2 1 None (Some Reverse), Edge 3 1 None (Some Reverse)])"
proof -
  have h: "edge_dfs (DiGraph [(0, 1), (1, 0), (1, 0), (2, 1), (3, 1)]) (NodeList [0, 1, 2, 3]) ''ignore'' =
     Some (Inr [Edge 0 1 None (Some Forward), Edge 1 0 None (Some Forward),
                Edge 2 1 None (Some Reverse), Edge 3 1 None (Some Reverse)])"
    by code_simp
  from edge_dfs_no_identity_twice [OF h] h show ?thesis
    by (rule_tac conjI)
qed

text \<open>
  C5. The directed simple graph built from the edge list (0,1), (1,0), (1,0), (2,1), (3,1),
  sources 0, 1, 2, 3, orientation \<open>ignore\<close>: the traversal yields (0,1,Forward),
  (1,0,Forward), (2,1,Reverse), (3,1,Reverse), in this order.
\<close>

theorem edge_dfs_digraph_ignore_scenario:
  "edge_dfs (DiGraph [(0, 1), (1, 0), (1, 0), (2, 1), (3, 1)])
       (NodeList [0, 1, 2, 3]) ''ignore'' =
   Some (Inr [Edge 0 1 None (Some Forward), Edge 1 0 None (Some Forward),
              Edge 2 1 None (Some Reverse), Edge 3 1 None (Some Reverse)])"
  by code_simp

text \<open>
  C6. On an undirected graph the orientation mode is not looked at: \<open>reverse\<close> and
  \<open>ignore\<close> give the generator the very outcome of \<open>original\<close>, the yielded
  sequence and the absence of an exception included.
\<close>

theorem edge_dfs_undirected_orientation_irrelevant:
  "\<not> is_directed G \<Longrightarrow>
   edge_dfs G source ''reverse'' = edge_dfs G source ''original'' \<and>
   edge_dfs G source ''ignore'' = edge_dfs G source ''original''"
proof -
  assume u: "\<not> is_directed G"
  have r: "helper_funcs G ''reverse'' = helper_funcs G ''original''"
    and i: "helper_funcs G ''ignore'' = helper_funcs G ''original''"
    using u by (rule helper_funcs_undirected)+
  show ?thesis
    unfolding edge_dfs_def r i by simp
qed

theorem edge_dfs_undirected_orientation_irrelevant_witness:
  "\<not> is_directed (Graph [(0, 1), (1, 0), (1, 0), (2, 1), (3, 1)]) \<and>
   edge_dfs (Graph [(0, 1), (1, 0), (1, 0), (2, 1), (3, 1)]) (NodeList [0, 1, 2, 3]) ''reverse'' =
   edge_dfs (Graph [(0, 1), (1, 0), (1, 0), (2, 1), (3, 1)]) (NodeList [0, 1, 2, 3]) ''original'' \<and>
   edge_dfs (Graph [(0, 1), (1, 0), (1, 0), (2, 1), (3, 1)]) (NodeList [0, 1, 2, 3]) ''ignore'' =
   edge_dfs (Graph [(0, 1), (1, 0), (1, 0), (2, 1), (3, 1)]) (NodeList [0, 1, 2, 3]) ''original'' \<and>
   edge_dfs (Graph [(0, 1), (1, 0), (1, 0), (2, 1), (3, 1)]) (NodeList [0, 1, 2, 3]) ''original'' =
   Some (Inr [Edge 0 1 None None, Edge 1 2 None None, Edge 1 3 None None])"
proof -
  have h: "\<not> is_directed (Graph [(0, 1), (1, 0), (1, 0), (2, 1), (3, 1)])"
    by (simp add: Graph_def)
  have v: "edge_dfs (Graph [(0, 1), (1, 0), (1, 0), (2, 1), (3, 1)]) (NodeList [0, 1, 2, 3]) ''original'' =
      Some (Inr [Edge 0 1 None None, Edge 1 2 None None, Edge 1 3 None None])"
    by code_simp
  from edge_dfs_undirected_orientation_irrelevant [OF h, of "NodeList [0, 1, 2, 3]"] h v
  show ?thesis by simp
qed

text \<open>
  C7. On an undirected graph the identity of an untagged edge does not depend on the order
  of its two endpoints: (u, v) and (v, u), with the same key or both without one, have the
  same identity.
\<close>

theorem key_undirected_order_insensitive:
  "\<not> is_directed G \<Longrightarrow>
   key G orientation (Edge u v k None) = key G orientation (Edge v u k None)"
  by (simp add: key_def ignore_orientation_def reverse_orientation_def insert_commute)

theorem key_undirected_order_insensitive_witness:
  "\<not> is_directed (Graph [(0, 1)]) \<and>
   key (Graph [(0, 1)]) ''original'' (Edge 0 1 (Some 7) None) =
   key (Graph [(0, 1)]) ''original'' (Edge 1 0 (Some 7) None)"
proof -
  have h: "\<not> is_directed (Graph [(0, 1)])"
    by (simp add: Graph_def)
  from key_undirected_order_insensitive [OF h] h show ?thesis by simp
qed

text \<open>
  C8. Let \<open>V\<close> be a finite set of nodes that holds the resolved sources and the second
  element of every edge that \<open>out_edges\<close> gives for a node of \<open>V\<close>. Then the generator
  body runs to its end (or ends with the host's exception from node resolution): the
  \<open>while\<close> loop of every root ends and the sequence of yielded edges is a finite list.
\<close>

theorem edge_dfs_terminates:
  assumes "finite V"
    and "\<forall>nodes. nbunch_iter G source = Inr nodes \<longrightarrow> set nodes \<subseteq> V"
    and "\<forall>u\<in>V. \<forall>e\<in>set (out_edges G orientation u (edge_kwds G)). e1 e \<in> V"
  shows "\<exists>r. edge_dfs G source orientation = Some r"
proof (cases "nbunch_iter G source")
  case (Inl e)
  then show ?thesis by (simp add: edge_dfs_def)
next
  case (Inr nodes)
  with assms(2) have "set nodes \<subseteq> V" by simp
  with for_nodes_terminates [of V "out_edges G orientation" "edge_kwds G" init_state nodes "key G orientation"]
    assms(1,3) closed_in_init [of V]
  obtain s' where "for_nodes (out_edges G orientation) (key G orientation) (edge_kwds G) nodes init_state = Some s'"
    by blast
  with Inr show ?thesis
    by (simp add: edge_dfs_def helper_funcs_def)
qed

theorem edge_dfs_terminates_witness:
  "finite {0, 1, 2, 3 :: nat} \<and>
   nbunch_iter (DiGraph [(0, 1), (1, 0), (1, 0), (2, 1), (3, 1)]) (NodeList [0, 1, 2, 3]) =
     Inr [0, 1, 2, 3] \<and>
   list_all (\<lambda>u. list_all (\<lambda>e. e1 e \<in> {0, 1, 2, 3})
       (out_edges (DiGraph [(0, 1), (1, 0), (1, 0), (2, 1), (3, 1)]) ''ignore'' u
          (edge_kwds (DiGraph [(0, 1), (1, 0), (1, 0), (2, 1), (3, 1)])))) [0, 1, 2, 3] \<and>
   (\<exists>r. edge_dfs (DiGraph [(0, 1), (1, 0), (1, 0), (2, 1), (3, 1)]) (NodeList [0, 1, 2, 3]) ''ignore'' =
      Some r)"
proof -
  have f: "finite {0, 1, 2, 3 :: nat}"
    by simp
  have n: "nbunch_iter (DiGraph [(0, 1), (1, 0), (1, 0), (2, 1), (3, 1)]) (NodeList [0, 1, 2, 3]) =
      Inr [0, 1, 2, 3]"
    by (simp add: DiGraph_def resolve_def nodes_of_def add_once_def)
  have c: "list_all (\<lambda>u. list_all (\<lambda>e. e1 e \<in> {0, 1, 2, 3})
       (out_edges (DiGraph [(0, 1), (1, 0), (1, 0), (2, 1), (3, 1)]) ''ignore'' u
          (edge_kwds (DiGraph [(0, 1), (1, 0), (1, 0), (2, 1), (3, 1)])))) [0, 1, 2, 3]"
    by (simp add: out_edges_def ignore_orientation_def DiGraph_def successors_def
        predecessors_def add_once_def)
  have n': "\<forall>nodes. nbunch_iter (DiGraph [(0, 1), (1, 0), (1, 0), (2, 1), (3, 1)]) (NodeList [0, 1, 2, 3]) =
      Inr nodes \<longrightarrow> set nodes \<subseteq> {0, 1, 2, 3}"
    using n by simp
  have c': "\<forall>u\<in>{0, 1, 2, 3}. \<forall>e\<in>set (out_edges (DiGraph [(0, 1), (1, 0), (1, 0), (2, 1), (3, 1)]) ''ignore'' u
        (edge_kwds (DiGraph [(0, 1), (1, 0), (1, 0), (2, 1), (3, 1)]))). e1 e \<in> {0, 1, 2, 3}"
    using c by (simp add: list_all_iff)
  from edge_dfs_terminates [OF f n' c'] f n c show ?thesis
    by blast
qed

text \<open>
  C10. An orientation argument other than \<open>ignore\<close> and \<open>reverse\<close> is not rejected:
  on every graph the generator behaves as it does for \<open>original\<close>.
\<close>

theorem edge_dfs_unknown_orientation:
  "orientation \<noteq> ''ignore'' \<Longrightarrow> orientation \<noteq> ''reverse'' \<Longrightarrow>
   edge_dfs G source orientation = edge_dfs G source ''original''"
proof -
  assume "orientation \<noteq> ''ignore''" and "orientation \<noteq> ''reverse''"
  then have h: "helper_funcs G orientation = helper_funcs G ''original''"
    by (rule helper_funcs_other_mode)
  show ?thesis
    unfolding edge_dfs_def h by simp
qed

theorem edge_dfs_unknown_orientation_witness:
  "''foo'' \<noteq> ''ignore'' \<and> ''foo'' \<noteq> ''reverse'' \<and>
   edge_dfs (DiGraph [(0, 1), (1, 0), (1, 0), (2, 1), (3, 1)]) (NodeList [0, 1, 2, 3]) ''foo'' =
   edge_dfs (DiGraph [(0, 1), (1, 0), (1, 0), (2, 1), (3, 1)]) (NodeList [0, 1, 2, 3]) ''original'' \<and>
   edge_dfs (DiGraph [(0, 1), (1, 0), (1, 0), (2, 1), (3, 1)]) (NodeList [0, 1, 2, 3]) ''foo'' =
   Some (Inr [Edge 0 1 None None, Edge 1 0 None None, Edge 2 1 None None, Edge 3 1 None None])"
proof -
  have h1: "''foo'' \<noteq> ''ignore''" and h2: "''foo'' \<noteq> ''reverse''"
    by simp_all
  have v: "edge_dfs (DiGraph [(0, 1), (1, 0), (1, 0), (2, 1), (3, 1)]) (NodeList [0, 1, 2, 3]) ''original'' =
      Some (Inr [Edge 0 1 None None, Edge 1 0 None None, Edge 2 1 None None, Edge 3 1 None None])"
    by code_simp
  from edge_dfs_unknown_orientation [OF h1 h2, of "DiGraph [(0, 1), (1, 0), (1, 0), (2, 1), (3, 1)]"
      "NodeList [0, 1, 2, 3]"] v
  show ?thesis by simp
qed

end
